theory Spec2Isabelle
  imports Main "HOL-Library.Sublist"
begin

section \<open>Python strings\<close>

text \<open>
  A Python \<^verbatim>\<open>str\<close> is a sequence of Unicode code points and \<^verbatim>\<open>len\<close> counts code
  points, so a string is a list of code points here (not a list of bytes).
\<close>

type_synonym pystr = "nat list"

text \<open>An ASCII literal of the source, as code points.\<close>

definition lit :: "string \<Rightarrow> pystr" where
  "lit s = map of_char s"

text \<open>A text between single quotes, for the messages that quote a word.\<close>

definition quoted :: "pystr \<Rightarrow> pystr" where
  "quoted s = [0x27] @ s @ [0x27]"

text \<open>
  \<^verbatim>\<open>str.isspace\<close> for one code point: the code points with bidirectional type WS, B or S
  or category Zs, the table CPython's \<^verbatim>\<open>str.strip()\<close> uses when called without argument.
\<close>

definition is_space :: "nat \<Rightarrow> bool" where
  "is_space c = (c \<in> set [0x09, 0x0A, 0x0B, 0x0C, 0x0D, 0x1C, 0x1D, 0x1E, 0x1F, 0x20,
       0x85, 0xA0, 0x1680, 0x2000, 0x2001, 0x2002, 0x2003, 0x2004, 0x2005, 0x2006,
       0x2007, 0x2008, 0x2009, 0x200A, 0x2028, 0x2029, 0x202F, 0x205F, 0x3000])"

text \<open>\<^verbatim>\<open>s.strip()\<close>: leading and trailing whitespace removed.\<close>

definition strip :: "pystr \<Rightarrow> pystr" where
  "strip s = rev (dropWhile is_space (rev (dropWhile is_space s)))"

text \<open>
  \<^verbatim>\<open>s.split(sep)\<close> for a one-character separator: the pieces between the occurrences of
  the separator, empty pieces kept; a string with n separators gives n + 1 pieces.
\<close>

fun str_split :: "nat \<Rightarrow> pystr \<Rightarrow> pystr list" where
  "str_split sep [] = [[]]"
| "str_split sep (c # cs) =
     (if c = sep then [] # str_split sep cs
      else (case str_split sep cs of
              [] \<Rightarrow> [[c]]
            | w # ws \<Rightarrow> (c # w) # ws))"

text \<open>\<^verbatim>\<open>sep.join(xs)\<close>.\<close>

fun str_join :: "pystr \<Rightarrow> pystr list \<Rightarrow> pystr" where
  "str_join sep [] = []"
| "str_join sep [x] = x"
| "str_join sep (x # y # ys) = x @ sep @ str_join sep (y # ys)"

text \<open>\<^verbatim>\<open>s.endswith(suf)\<close>.\<close>

definition endswith :: "pystr \<Rightarrow> pystr \<Rightarrow> bool" where
  "endswith s suf = (length suf \<le> length s \<and> drop (length s - length suf) s = suf)"

text \<open>
  \<^verbatim>\<open>xs[:k]\<close> for a Python int \<^verbatim>\<open>k\<close>: the first k elements when k is not negative; a
  negative k counts from the end, so the slice drops the last -k elements.
\<close>

definition slice_to :: "int \<Rightarrow> 'a list \<Rightarrow> 'a list" where
  "slice_to k xs =
     (if 0 \<le> k then take (nat k) xs
      else take (nat (int (length xs) + k)) xs)"

section \<open>Paragraph selection\<close>

text \<open>
  \<^verbatim>\<open>
  def get_relevant_paragraphs(text, min_len=80, max_len=400, limit=25):
      return [p.strip() for p in text.split("\n")
              if min_len <= len(p.strip()) <= max_len][:limit]
  \<close>
\<close>

definition in_bounds :: "int \<Rightarrow> int \<Rightarrow> pystr \<Rightarrow> bool" where
  "in_bounds min_len max_len p =
     (min_len \<le> int (length (strip p)) \<and> int (length (strip p)) \<le> max_len)"

definition get_relevant_paragraphs :: "pystr \<Rightarrow> int \<Rightarrow> int \<Rightarrow> int \<Rightarrow> pystr list" where
  "get_relevant_paragraphs text min_len max_len limit =
     slice_to limit (map strip (filter (in_bounds min_len max_len) (str_split 0x0A text)))"

section \<open>Exceptions\<close>

text \<open>
  A raised exception is its class and its message (\<^verbatim>\<open>str(e)\<close>). \<open>NonException\<close> stands
  for the classes derived from \<^verbatim>\<open>BaseException\<close> but not from \<^verbatim>\<open>Exception\<close>
  (\<^verbatim>\<open>KeyboardInterrupt\<close>, \<^verbatim>\<open>SystemExit\<close>), which \<^verbatim>\<open>except Exception\<close> does not catch.
\<close>

datatype exn_class = ValueError | AttributeError | OtherException | NonException

datatype exn = Exn (cls: exn_class) (message: pystr)

definition is_Exception :: "exn \<Rightarrow> bool" where
  "is_Exception e = (cls e \<noteq> NonException)"

section \<open>Flashcard generation\<close>

type_synonym flashcard = "pystr \<times> pystr"

text \<open>
  \<^verbatim>\<open>
  def generate_flashcards(text, max_flashcards=25):
      flashcards = []
      for para in get_relevant_paragraphs(text, limit=max_flashcards):
          try:
              for q in generate_questions(para):
                  flashcards.append((q, para))
          except Exception as e:
              print(f"Error generating for paragraph: {e}")
      return flashcards
  \<close>
  \<^verbatim>\<open>generate_questions\<close> runs the pretrained tokenizer and model, which are not part of the
  repository: it is the parameter \<open>gq\<close>, which for a paragraph either returns the list of
  decoded questions or raises. The state of the loop is the list \<^verbatim>\<open>flashcards\<close> and the
  lines printed so far.
\<close>

fun flashcards_loop ::
  "(pystr \<Rightarrow> exn + pystr list) \<Rightarrow> pystr list \<Rightarrow> flashcard list \<times> pystr list
     \<Rightarrow> exn + flashcard list \<times> pystr list" where
  "flashcards_loop gq [] st = Inr st"
| "flashcards_loop gq (para # ps) (flashcards, out) =
     (case gq para of
        Inr qs \<Rightarrow> flashcards_loop gq ps (flashcards @ map (\<lambda>q. (q, para)) qs, out)
      | Inl e \<Rightarrow>
          if is_Exception e
          then flashcards_loop gq ps
                 (flashcards, out @ [lit ''Error generating for paragraph: '' @ message e])
          else Inl e)"

text \<open>The result is the returned list together with the lines printed.\<close>

definition generate_flashcards ::
  "(pystr \<Rightarrow> exn + pystr list) \<Rightarrow> pystr \<Rightarrow> int \<Rightarrow> exn + flashcard list \<times> pystr list" where
  "generate_flashcards gq text max_flashcards =
     flashcards_loop gq (get_relevant_paragraphs text 80 400 max_flashcards) ([], [])"

section \<open>Text extraction\<close>

text \<open>
  The three decoders are library code (\<^verbatim>\<open>open\<close>, python-docx, PyMuPDF). Each takes a path
  and either fails or gives what the source reads from it: the decoded text of the file,
  the texts of the document's paragraphs, the texts of the pages (\<^verbatim>\<open>page.get_text()\<close>).
\<close>

record decoders =
  read_utf8 :: "pystr \<Rightarrow> exn + pystr"
  docx_paragraphs :: "pystr \<Rightarrow> exn + pystr list"
  pdf_pages :: "pystr \<Rightarrow> exn + pystr list"

text \<open>
  \<^verbatim>\<open>
  def extract_text_from_docx(path):
      doc = DocxDocument(path)
      return "\n".join(p.text for p in doc.paragraphs if p.text.strip())
  \<close>
\<close>

definition extract_text_from_docx :: "decoders \<Rightarrow> pystr \<Rightarrow> exn + pystr" where
  "extract_text_from_docx env path =
     (case docx_paragraphs env path of
        Inl e \<Rightarrow> Inl e
      | Inr paragraphs \<Rightarrow> Inr (str_join [0x0A] (filter (\<lambda>t. strip t \<noteq> []) paragraphs)))"

text \<open>
  \<^verbatim>\<open>
  def extract_text_from_pdf(path):
      text = ""
      with fitz.open(path) as doc:
          for page in doc:
              text += page.get_text()
      return text
  \<close>
\<close>

definition extract_text_from_pdf :: "decoders \<Rightarrow> pystr \<Rightarrow> exn + pystr" where
  "extract_text_from_pdf env path =
     (case pdf_pages env path of
        Inl e \<Rightarrow> Inl e
      | Inr pages \<Rightarrow> Inr (foldl (\<lambda>text page. text @ page) [] pages))"

text \<open>
  \<^verbatim>\<open>
  def extract_text(path):
      if path.endswith(".txt"):
          with open(path, "r", encoding="utf-8") as f:
              return f.read()
      elif path.endswith(".docx"):
          return extract_text_from_docx(path)
      elif path.endswith(".pdf"):
          return extract_text_from_pdf(path)
      else:
          raise ValueError("Unsupported file type.")
  \<close>
\<close>

definition extract_text :: "decoders \<Rightarrow> pystr \<Rightarrow> exn + pystr" where
  "extract_text env path =
     (if endswith path (lit ''.txt'') then read_utf8 env path
      else if endswith path (lit ''.docx'') then extract_text_from_docx env path
      else if endswith path (lit ''.pdf'') then extract_text_from_pdf env path
      else Inl (Exn ValueError (lit ''Unsupported file type.'')))"

section \<open>Export\<close>

text \<open>\<^verbatim>\<open>str(n)\<close> for a natural number, as the f-strings format the card number.\<close>

fun str_of_nat :: "nat \<Rightarrow> pystr" where
  "str_of_nat n =
     (if n < 10 then [0x30 + n] else str_of_nat (n div 10) @ [0x30 + n mod 10])"

declare str_of_nat.simps [simp del]

text \<open>
  A word-processor document is the list of the blocks added to it: a heading with its
  level, or a paragraph with its text and the style named for it, if any.
\<close>

datatype docx_block = Heading pystr nat | Para pystr "pystr option"

text \<open>
  A PDF canvas as the source drives it: \<^verbatim>\<open>code\<close> holds the operations of the page being
  drawn, \<^verbatim>\<open>showPage\<close> closes that page and starts an empty one, and \<^verbatim>\<open>save\<close> closes
  the last page if anything was drawn on it and gives the pages of the file. The page
  size \<^verbatim>\<open>letter\<close> is 612 by 792 points; all coordinates of the source are whole numbers
  of points, so they are integers here.
\<close>

datatype pdf_op = SetFont pystr nat | DrawString int int pystr

record canvas =
  pages_done :: "pdf_op list list"
  code :: "pdf_op list"

definition new_canvas :: canvas where
  "new_canvas = \<lparr>pages_done = [], code = []\<rparr>"

definition setFont :: "pystr \<Rightarrow> nat \<Rightarrow> canvas \<Rightarrow> canvas" where
  "setFont name sz c = c\<lparr>code := code c @ [SetFont name sz]\<rparr>"

definition drawString :: "int \<Rightarrow> int \<Rightarrow> pystr \<Rightarrow> canvas \<Rightarrow> canvas" where
  "drawString x y text c = c\<lparr>code := code c @ [DrawString x y text]\<rparr>"

definition showPage :: "canvas \<Rightarrow> canvas" where
  "showPage c = \<lparr>pages_done = pages_done c @ [code c], code = []\<rparr>"

definition save :: "canvas \<Rightarrow> pdf_op list list" where
  "save c = pages_done (if code c \<noteq> [] then showPage c else c)"

definition letter :: "int \<times> int" where
  "letter = (612, 792)"

text \<open>What a written file holds.\<close>

datatype document = DocxFile "docx_block list" | PdfFile "pdf_op list list"

type_synonym filesystem = "pystr \<rightharpoonup> document"

text \<open>
  \<^verbatim>\<open>
  def export_to_word(path, flashcards):
      doc = DocxDocument()
      doc.add_heading("Flashcards", level=1)
      doc.add_paragraph(f"Generated on {datetime.datetime.now().strftime('%Y-%m-%d %H:%M')}\n")
      for i, (q, a) in enumerate(flashcards, 1):
          doc.add_paragraph(f"Flashcard #{i}", style="Heading2")
          doc.add_paragraph(f"Q: {q}")
          doc.add_paragraph(f"A: {a}")
          doc.add_paragraph("")
      doc.save(path)
  \<close>
  The clock is outside the program: \<open>now\<close> is the string that
  \<^verbatim>\<open>datetime.datetime.now().strftime('%Y-%m-%d %H:%M')\<close> gives at the call.
\<close>

text \<open>
  python-docx turns a tab, a newline and a carriage return of a paragraph text into breaks
  and hands the rest to lxml, which refuses a text that is not XML compatible (a control
  character below U+0020, U+FFFE, U+FFFF or a surrogate) with \<^verbatim>\<open>ValueError\<close>. The title is
  a literal and the timestamp is made of digits, \<^verbatim>\<open>-\<close>, \<^verbatim>\<open>:\<close> and a space, so only the texts of
  the flashcards can be refused; the exception leaves \<^verbatim>\<open>export_to_word\<close> before
  \<^verbatim>\<open>doc.save\<close>, so no file is written then.
\<close>

definition docx_accepts :: "pystr \<Rightarrow> bool" where
  "docx_accepts s =
     list_all (\<lambda>c. (0x20 \<le> c \<or> c = 0x09 \<or> c = 0x0A \<or> c = 0x0D)
                   \<and> c \<noteq> 0xFFFE \<and> c \<noteq> 0xFFFF \<and> (c < 0xD800 \<or> 0xDFFF < c)) s"

definition xml_error :: exn where
  "xml_error =
     Exn ValueError
       (lit ''All strings must be XML compatible: Unicode or ASCII, no NULL bytes or control characters'')"

fun word_loop :: "nat \<Rightarrow> flashcard list \<Rightarrow> docx_block list \<Rightarrow> exn + docx_block list" where
  "word_loop i [] doc = Inr doc"
| "word_loop i ((q, a) # rest) doc =
     (if \<not> docx_accepts (lit ''Q: '' @ q) then Inl xml_error
      else if \<not> docx_accepts (lit ''A: '' @ a) then Inl xml_error
      else word_loop (i + 1) rest
             (doc @ [Para (lit ''Flashcard #'' @ str_of_nat i) (Some (lit ''Heading2'')),
                     Para (lit ''Q: '' @ q) None,
                     Para (lit ''A: '' @ a) None,
                     Para [] None]))"

definition export_to_word ::
  "pystr \<Rightarrow> pystr \<Rightarrow> flashcard list \<Rightarrow> filesystem \<Rightarrow> exn + filesystem" where
  "export_to_word path now flashcards fs =
     (let doc = [Heading (lit ''Flashcards'') 1,
                 Para (lit ''Generated on '' @ now @ [0x0A]) None]
      in case word_loop 1 flashcards doc of
           Inl e \<Rightarrow> Inl e
         | Inr doc \<Rightarrow> Inr (fs(path \<mapsto> DocxFile doc)))"

text \<open>
  \<^verbatim>\<open>
  def export_to_pdf(path, flashcards):
      c = canvas.Canvas(path, pagesize=letter)
      width, height = letter
      y = height - 50
      c.setFont("Helvetica-Bold", 14)
      c.drawString(50, y, "Flashcards")
      c.setFont("Helvetica", 10)
      y -= 25
      c.drawString(50, y, f"Generated on {datetime.datetime.now().strftime('%Y-%m-%d %H:%M')}")
      y -= 30
      for i, (q, a) in enumerate(flashcards, 1):
          if y < 100:
              c.showPage()
              y = height - 50
          c.setFont("Helvetica-Bold", 11)
          c.drawString(50, y, f"Flashcard #{i}")
          y -= 15
          c.setFont("Helvetica", 10)
          c.drawString(50, y, f"Q: {q}")
          y -= 15
          c.drawString(50, y, f"A: {a}")
          y -= 25
      c.save()
  \<close>
  The state of the loop is the canvas and \<^verbatim>\<open>y\<close>.
\<close>

definition pdf_card :: "int \<Rightarrow> nat \<Rightarrow> flashcard \<Rightarrow> canvas \<times> int \<Rightarrow> canvas \<times> int" where
  "pdf_card height i fc st =
     (let (c, y) = st;
          (q, a) = fc;
          (c, y) = (if y < 100 then (showPage c, height - 50) else (c, y));
          c = setFont (lit ''Helvetica-Bold'') 11 c;
          c = drawString 50 y (lit ''Flashcard #'' @ str_of_nat i) c;
          y = y - 15;
          c = setFont (lit ''Helvetica'') 10 c;
          c = drawString 50 y (lit ''Q: '' @ q) c;
          y = y - 15;
          c = drawString 50 y (lit ''A: '' @ a) c;
          y = y - 25
      in (c, y))"

fun pdf_loop :: "int \<Rightarrow> nat \<Rightarrow> flashcard list \<Rightarrow> canvas \<times> int \<Rightarrow> canvas \<times> int" where
  "pdf_loop height i [] st = st"
| "pdf_loop height i (fc # rest) st = pdf_loop height (i + 1) rest (pdf_card height i fc st)"

definition pdf_header :: "int \<Rightarrow> pystr \<Rightarrow> canvas \<times> int" where
  "pdf_header height now =
     (let c = new_canvas;
          y = height - 50;
          c = setFont (lit ''Helvetica-Bold'') 14 c;
          c = drawString 50 y (lit ''Flashcards'') c;
          c = setFont (lit ''Helvetica'') 10 c;
          y = y - 25;
          c = drawString 50 y (lit ''Generated on '' @ now) c;
          y = y - 30
      in (c, y))"

definition export_to_pdf :: "pystr \<Rightarrow> pystr \<Rightarrow> flashcard list \<Rightarrow> filesystem \<Rightarrow> filesystem" where
  "export_to_pdf path now flashcards fs =
     (let (width, height) = letter;
          (c, y) = pdf_loop height 1 flashcards (pdf_header height now)
      in fs(path \<mapsto> PdfFile (save c)))"

section \<open>The export command of the application\<close>

text \<open>
  \<^verbatim>\<open>s.lower()\<close> and \<^verbatim>\<open>s.upper()\<close> on the letters A to Z and a to z; other code points
  are left as they are. Python also maps letters outside ASCII, none of them to a letter
  of \<^verbatim>\<open>pdf\<close> or \<^verbatim>\<open>word\<close>, so the test on \<open>format_choice\<close> is the same; \<^verbatim>\<open>upper\<close> is only
  applied to \<^verbatim>\<open>pdf\<close> or \<^verbatim>\<open>word\<close>.
\<close>

definition lower :: "pystr \<Rightarrow> pystr" where
  "lower s = map (\<lambda>c. if 0x41 \<le> c \<and> c \<le> 0x5A then c + 0x20 else c) s"

definition upper :: "pystr \<Rightarrow> pystr" where
  "upper s = map (\<lambda>c. if 0x61 \<le> c \<and> c \<le> 0x7A then c - 0x20 else c) s"

text \<open>
  What the application holds and what the user sees of it: the stored flashcards, the
  status bar, the message boxes shown so far and the files written.
\<close>

datatype msgbox = ShowInfo pystr pystr | ShowError pystr pystr

record app =
  flashcards :: "flashcard list"
  status :: pystr
  boxes :: "msgbox list"
  files :: filesystem

text \<open>
  \<^verbatim>\<open>
  def export_output(self):
      if not self.flashcards:
          messagebox.showinfo("No data", "Please generate flashcards first.")
          return
      format_choice = simpledialog.askstring("Export Format",
          "Export as PDF or Word? (Type 'pdf' or 'word')").strip().lower()
      if format_choice not in {"pdf", "word"}:
          messagebox.showerror("Invalid format", "Please enter 'pdf' or 'word'.")
          return
      filetypes = ...
      ext = ".pdf" if format_choice == "pdf" else ".docx"
      file_path = filedialog.asksaveasfilename(defaultextension=ext, filetypes=filetypes)
      if not file_path:
          return
      if format_choice == "pdf":
          export_to_pdf(file_path, self.flashcards)
      else:
          export_to_word(file_path, self.flashcards)
      self.set_status(f"Flashcards exported as {format_choice.upper()}.")
  \<close>
  The user's answers are inputs: \<open>asked\<close> is what \<^verbatim>\<open>askstring\<close> returns, \<open>None\<close> when the
  dialog is cancelled, and \<open>save_as\<close> is what \<^verbatim>\<open>asksaveasfilename\<close> returns, the empty string
  when it is cancelled. Calling \<^verbatim>\<open>.strip()\<close> on \<^verbatim>\<open>None\<close> raises \<^verbatim>\<open>AttributeError\<close>. An
  exception of \<^verbatim>\<open>export_to_word\<close> leaves \<^verbatim>\<open>export_output\<close> before the status is set.
\<close>

definition export_output :: "pystr option \<Rightarrow> pystr \<Rightarrow> pystr \<Rightarrow> app \<Rightarrow> exn + app" where
  "export_output asked save_as now self =
     (if flashcards self = []
      then Inr (self\<lparr>boxes := boxes self @
                  [ShowInfo (lit ''No data'') (lit ''Please generate flashcards first.'')]\<rparr>)
      else
        (case asked of
           None \<Rightarrow> Inl (Exn AttributeError (quoted (lit ''NoneType'') @ lit '' object has no attribute '' @ quoted (lit ''strip'')))
         | Some answer \<Rightarrow>
             (let format_choice = lower (strip answer) in
              if format_choice \<noteq> lit ''pdf'' \<and> format_choice \<noteq> lit ''word''
              then Inr (self\<lparr>boxes := boxes self @
                          [ShowError (lit ''Invalid format'') (lit ''Please enter '' @ quoted (lit ''pdf'') @ lit '' or '' @
                               quoted (lit ''word'') @ lit ''.'')]\<rparr>)
              else
                (let file_path = save_as in
                 if file_path = [] then Inr self
                 else
                   (case (if format_choice = lit ''pdf''
                          then Inr (export_to_pdf file_path now (flashcards self) (files self))
                          else export_to_word file_path now (flashcards self) (files self)) of
                      Inl e \<Rightarrow> Inl e
                    | Inr fs \<Rightarrow>
                        Inr (self\<lparr>files := fs,
                                  status := lit ''Flashcards exported as '' @ upper format_choice
                                            @ lit ''.''\<rparr>))))))"

section \<open>Vocabulary of the statements\<close>

text \<open>
  What one paragraph contributes to a run of \<open>generate_flashcards\<close>: its flashcards, one
  per generated question, when \<open>gq\<close> returns, and the printed line when \<open>gq\<close> raises.
\<close>

definition cards_for :: "(pystr \<Rightarrow> exn + pystr list) \<Rightarrow> pystr \<Rightarrow> flashcard list" where
  "cards_for gq para = (case gq para of Inr qs \<Rightarrow> map (\<lambda>q. (q, para)) qs | Inl e \<Rightarrow> [])"

definition printed_for :: "(pystr \<Rightarrow> exn + pystr list) \<Rightarrow> pystr \<Rightarrow> pystr list" where
  "printed_for gq para =
     (case gq para of
        Inr qs \<Rightarrow> []
      | Inl e \<Rightarrow> [lit ''Error generating for paragraph: '' @ message e])"

text \<open>
  The position, in the list of selected paragraphs, of the paragraph each returned flashcard
  was generated from: position k once for every flashcard of the paragraph at k.
\<close>

definition source_positions :: "(pystr \<Rightarrow> exn + pystr list) \<Rightarrow> pystr list \<Rightarrow> nat list" where
  "source_positions gq ps =
     concat (map (\<lambda>k. replicate (length (cards_for gq (ps ! k))) k) [0..<length ps])"

text \<open>
  Decoders for the examples: one under which every path reads as a small document (the
  word-processor one with a blank paragraph between two others), and one whose
  word-processor document holds a single paragraph made of one space.
\<close>

definition example_decoders :: decoders where
  "example_decoders =
     \<lparr>read_utf8 = (\<lambda>path. Inr (lit ''hello'')),
      docx_paragraphs = (\<lambda>path. Inr [lit ''p1'', [0x20], lit ''p2'']),
      pdf_pages = (\<lambda>path. Inr [lit ''page1'', lit ''page2''])\<rparr>"

definition blank_docx_decoders :: decoders where
  "blank_docx_decoders =
     \<lparr>read_utf8 = (\<lambda>path. Inl (Exn OtherException [])),
      docx_paragraphs = (\<lambda>path. Inr [[0x20]]),
      pdf_pages = (\<lambda>path. Inl (Exn OtherException []))\<rparr>"

text \<open>
  Application states for the examples: one with no flashcards and one holding a single
  flashcard, both with nothing written yet.
\<close>

definition empty_app :: app where
  "empty_app = \<lparr>flashcards = [], status = lit ''Ready'', boxes = [], files = Map.empty\<rparr>"

definition one_card_app :: app where
  "one_card_app =
     \<lparr>flashcards = [(lit ''Q?'', lit ''A'')], status = lit ''Ready'', boxes = [],
      files = Map.empty\<rparr>"

text \<open>
  Vocabulary of the pagination statement. \<open>card_ops y i fc\<close> lists the operations that one
  pass of the loop of \<^verbatim>\<open>export_to_pdf\<close> adds to the page for card number \<open>i\<close> drawn from
  height \<open>y\<close>. A card lowers \<^verbatim>\<open>y\<close> by 15 + 15 + 25 = 55 points, so the cards drawn before
  a card have consumed a cumulative height \<open>h\<close> of 55 points each. In terms of \<open>h\<close> alone,
  \<open>y_at h\<close> is the height the next card is drawn from and \<open>page_at h\<close> the index of the page it
  is drawn on, counted from 0: below the header the first page takes cards while
  \<open>687 - h\<close> is at least 100, that is \<open>h < 605\<close>, and every later page starts at 742 and
  takes 660 points of cards.
\<close>

definition card_ops :: "int \<Rightarrow> nat \<Rightarrow> flashcard \<Rightarrow> pdf_op list" where
  "card_ops y i fc =
     [SetFont (lit ''Helvetica-Bold'') 11,
      DrawString 50 y (lit ''Flashcard #'' @ str_of_nat i),
      SetFont (lit ''Helvetica'') 10,
      DrawString 50 (y - 15) (lit ''Q: '' @ fst fc),
      DrawString 50 (y - 30) (lit ''A: '' @ snd fc)]"

definition y_at :: "int \<Rightarrow> int" where
  "y_at h = (if h < 605 then 687 - h else 742 - (h - 605) mod 660)"

definition page_at :: "int \<Rightarrow> nat" where
  "page_at h = (if h < 605 then 0 else 1 + nat ((h - 605) div 660))"

section \<open>Properties of the string operations\<close>

lemma dropWhile_hd_id: "xs = [] \<or> \<not> P (hd xs) \<Longrightarrow> dropWhile P xs = xs"
  by (cases xs) auto

lemma rev_dropWhile_rev_take:
  "rev (dropWhile P (rev t)) = take (length t - length (takeWhile P (rev t))) t"
  by (simp add: dropWhile_eq_drop rev_drop)

lemma strip_no_lead: "strip s = [] \<or> \<not> is_space (hd (strip s))"
proof (cases "strip s = []")
  case True
  then show ?thesis by simp
next
  case False
  let ?t = "dropWhile is_space s"
  let ?m = "length ?t - length (takeWhile is_space (rev ?t))"
  have eq: "strip s = take ?m ?t"
    unfolding strip_def by (rule rev_dropWhile_rev_take)
  with False have "?t \<noteq> []" "0 < ?m" by auto
  then have "hd (strip s) = hd ?t"
    using eq by (cases ?t; cases ?m) simp_all
  moreover have "\<not> is_space (hd ?t)"
    using \<open>?t \<noteq> []\<close> by (simp add: hd_dropWhile)
  ultimately show ?thesis by simp
qed

lemma strip_no_trail: "strip s = [] \<or> \<not> is_space (last (strip s))"
proof (cases "strip s = []")
  case True
  then show ?thesis by simp
next
  case False
  let ?u = "dropWhile is_space (rev (dropWhile is_space s))"
  have "?u \<noteq> []" using False by (simp add: strip_def)
  then have "\<not> is_space (hd ?u)" by (simp add: hd_dropWhile)
  moreover have "last (strip s) = hd ?u"
    using \<open>?u \<noteq> []\<close> by (simp add: strip_def last_rev)
  ultimately show ?thesis by simp
qed

lemma strip_fixed:
  assumes "s = [] \<or> (\<not> is_space (hd s) \<and> \<not> is_space (last s))"
  shows "strip s = s"
proof (cases "s = []")
  case True
  then show ?thesis by (simp add: strip_def)
next
  case False
  with assms have h: "\<not> is_space (hd s)" and l: "\<not> is_space (last s)" by auto
  have "dropWhile is_space s = s"
    using h by (intro dropWhile_hd_id) simp
  moreover have "dropWhile is_space (rev s) = rev s"
    using l False by (intro dropWhile_hd_id) (simp add: hd_rev)
  ultimately show ?thesis by (simp add: strip_def)
qed

lemma strip_idem: "strip (strip s) = strip s"
  using strip_no_lead [of s] strip_no_trail [of s] by (intro strip_fixed) auto

lemma set_slice_to: "set (slice_to k xs) \<subseteq> set xs"
  by (auto simp: slice_to_def dest: in_set_takeD)

section \<open>Properties of paragraph selection\<close>

lemmas grp_eval = get_relevant_paragraphs_def in_bounds_def strip_def is_space_def slice_to_def

lemma grp_strip_image:
  "p \<in> set (get_relevant_paragraphs text min_len max_len limit) \<Longrightarrow>
   \<exists>s \<in> set (str_split 0x0A text). in_bounds min_len max_len s \<and> p = strip s"
proof -
  let ?ys = "map strip (filter (in_bounds min_len max_len) (str_split 0x0A text))"
  assume "p \<in> set (get_relevant_paragraphs text min_len max_len limit)"
  then have "p \<in> set (slice_to limit ?ys)" by (simp only: get_relevant_paragraphs_def)
  then have "p \<in> set ?ys" by (rule subsetD [OF set_slice_to])
  then show ?thesis by (simp only: set_map set_filter) blast
qed

lemma grp_filter_map:
  "map strip (filter (in_bounds lo hi) xs) =
   filter (\<lambda>p. lo \<le> int (length p) \<and> int (length p) \<le> hi) (map strip xs)"
  by (induction xs) (simp_all add: in_bounds_def)

text \<open>
  The bounds and the order for every value of \<open>limit\<close>: each returned paragraph is within
  the length bounds, and the result is a prefix of the list of all qualifying trimmed
  segments in their original order.
\<close>

lemma get_relevant_paragraphs_any_limit:
  "list_all (\<lambda>p. min_len \<le> int (length p) \<and> int (length p) \<le> max_len)
     (get_relevant_paragraphs text min_len max_len limit)
   \<and> prefix (get_relevant_paragraphs text min_len max_len limit)
        (filter (\<lambda>p. min_len \<le> int (length p) \<and> int (length p) \<le> max_len)
           (map strip (str_split 0x0A text)))"
proof -
  let ?ok = "\<lambda>p. min_len \<le> int (length p) \<and> int (length p) \<le> max_len"
  let ?sel = "filter ?ok (map strip (str_split 0x0A text))"
  have "\<exists>n. slice_to limit ?sel = take n ?sel"
    by (cases "0 \<le> limit") (auto simp: slice_to_def)
  then obtain n where eq: "get_relevant_paragraphs text min_len max_len limit = take n ?sel"
    by (auto simp only: get_relevant_paragraphs_def grp_filter_map)
  have "set (take n ?sel) \<subseteq> set ?sel" by (rule set_take_subset)
  then have "list_all ?ok (take n ?sel)"
    unfolding list_all_iff by (auto simp only: set_filter)
  moreover have "prefix (take n ?sel) ?sel" by (rule take_is_prefix)
  ultimately show ?thesis by (simp only: eq simp_thms)
qed

text \<open>
  C2: for every text, every \<open>min_len\<close> and \<open>max_len\<close> and every maximum count \<open>limit\<close>,
  \<open>get_relevant_paragraphs\<close> returns exactly the trimmed newline-separated segments whose
  trimmed length lies between \<open>min_len\<close> and \<open>max_len\<close> inclusive, cut to the first \<open>limit\<close>
  of them, in their original order; every returned paragraph is within the length bounds
  and the result has at most \<open>limit\<close> elements.
\<close>

theorem get_relevant_paragraphs_spec:
  fixes limit :: nat
  shows "get_relevant_paragraphs text min_len max_len (int limit) =
           take limit
             (filter (\<lambda>p. min_len \<le> int (length p) \<and> int (length p) \<le> max_len)
                (map strip (str_split 0x0A text)))
         \<and> list_all (\<lambda>p. min_len \<le> int (length p) \<and> int (length p) \<le> max_len)
              (get_relevant_paragraphs text min_len max_len (int limit))
         \<and> length (get_relevant_paragraphs text min_len max_len (int limit)) \<le> limit"
proof -
  let ?ok = "\<lambda>p. min_len \<le> int (length p) \<and> int (length p) \<le> max_len"
  let ?sel = "filter ?ok (map strip (str_split 0x0A text))"
  have eq: "get_relevant_paragraphs text min_len max_len (int limit) = take limit ?sel"
    by (simp add: get_relevant_paragraphs_def grp_filter_map slice_to_def)
  have "list_all ?ok (get_relevant_paragraphs text min_len max_len (int limit))"
    by (rule get_relevant_paragraphs_any_limit [THEN conjunct1])
  moreover have "length (take limit ?sel) \<le> limit" by simp
  ultimately show ?thesis by (simp only: eq simp_thms)
qed

text \<open>
  Example for C2: the text "a", " ", "b ", "c" on four lines, with bounds 1, 1 and limit 2,
  gives the first two one-character paragraphs, in their order.
\<close>

theorem get_relevant_paragraphs_spec_witness:
  "get_relevant_paragraphs [0x61, 0x0A, 0x20, 0x0A, 0x62, 0x20, 0x0A, 0x63] 1 1 (int 2)
     = [[0x61], [0x62]]"
proof -
  have v: "take 2
             (filter (\<lambda>p. 1 \<le> int (length p) \<and> int (length p) \<le> 1)
                (map strip (str_split 0x0A [0x61, 0x0A, 0x20, 0x0A, 0x62, 0x20, 0x0A, 0x63])))
           = [[0x61], [0x62]]"
    by (simp add: grp_eval)
  show ?thesis
    using get_relevant_paragraphs_spec
            [of "[0x61, 0x0A, 0x20, 0x0A, 0x62, 0x20, 0x0A, 0x63]" 1 1 2]
    by (simp only: v simp_thms)
qed

text \<open>
  C10: every paragraph returned by \<open>get_relevant_paragraphs\<close> equals its own trim, for every
  text and bounds.
\<close>

theorem selected_paragraph_is_stripped:
  "p \<in> set (get_relevant_paragraphs text min_len max_len limit) \<Longrightarrow> strip p = p"
  by (drule grp_strip_image) (auto simp only: strip_idem)

text \<open>
  Witness for C10: the line " ab " (with bounds 1 and 5) is returned as "ab", which is its
  own trim.
\<close>

theorem selected_paragraph_is_stripped_witness:
  "[0x61, 0x62] \<in> set (get_relevant_paragraphs [0x20, 0x61, 0x62, 0x20, 0x0A, 0x63] 1 5 25) \<and>
   strip [0x61, 0x62] = [0x61, 0x62]"
proof -
  have h: "[0x61, 0x62] \<in> set (get_relevant_paragraphs [0x20, 0x61, 0x62, 0x20, 0x0A, 0x63] 1 5 25)"
    by (simp add: grp_eval)
  show ?thesis using selected_paragraph_is_stripped [OF h] h by simp
qed

section \<open>Properties of flashcard generation\<close>

lemma sublist_strip: "sublist (strip s) s"
proof -
  have "sublist (strip s) (dropWhile is_space s)"
    unfolding strip_def by (simp only: rev_dropWhile_rev_take sublist_take)
  moreover have "sublist (dropWhile is_space s) s" by (rule sublist_dropWhile)
  ultimately show ?thesis by (rule sublist_order.order_trans)
qed

lemma str_split_nonempty: "str_split sep t \<noteq> []"
  by (induction t) (auto split: list.splits)

lemma str_split_first_prefix: "str_split sep t = w # ws \<Longrightarrow> prefix w t"
proof (induction t arbitrary: w ws)
  case Nil
  then show ?case by simp
next
  case (Cons d ds)
  show ?case
  proof (cases "d = sep")
    case True
    with Cons.prems show ?thesis by simp
  next
    case False
    obtain v vs where "str_split sep ds = v # vs"
      using str_split_nonempty [of sep ds] by (cases "str_split sep ds") auto
    with False Cons show ?thesis by auto
  qed
qed

lemma sublist_str_split: "s \<in> set (str_split sep t) \<Longrightarrow> sublist s t"
proof (induction t arbitrary: s)
  case Nil
  then show ?case by simp
next
  case (Cons c cs)
  obtain w ws where sp: "str_split sep cs = w # ws"
    using str_split_nonempty [of sep cs] by (cases "str_split sep cs") auto
  from Cons.prems sp consider "s = []" | "s = c # w" "c \<noteq> sep" | "s \<in> set (str_split sep cs)"
    by (cases "c = sep") auto
  then show ?case
  proof cases
    case 1
    then show ?thesis by simp
  next
    case 2
    from sp have "prefix w cs" by (rule str_split_first_prefix)
    then have "prefix (c # w) (c # cs)" by simp
    then show ?thesis using 2 by (simp only: prefix_imp_sublist)
  next
    case 3
    then have "sublist s cs" by (rule Cons.IH)
    then show ?thesis by (simp add: sublist_Cons_right)
  qed
qed

lemma flashcards_loop_Inr:
  "flashcards_loop gq ps (cs, out) = Inr (cs', out') \<Longrightarrow>
   cs' = cs @ concat (map (cards_for gq) ps) \<and> out' = out @ concat (map (printed_for gq) ps)"
proof (induction ps arbitrary: cs out)
  case Nil
  then show ?case by simp
next
  case (Cons p ps)
  show ?case
  proof (cases "gq p")
    case (Inr qs)
    with Cons.prems have "flashcards_loop gq ps (cs @ map (\<lambda>q. (q, p)) qs, out) = Inr (cs', out')"
      by simp
    from Cons.IH [OF this] Inr show ?thesis by (simp add: cards_for_def printed_for_def)
  next
    case (Inl e)
    with Cons.prems have ex: "is_Exception e" by (simp split: if_splits)
    with Inl Cons.prems have
      "flashcards_loop gq ps (cs, out @ [lit ''Error generating for paragraph: '' @ message e])
         = Inr (cs', out')" by simp
    from Cons.IH [OF this] Inl show ?thesis by (simp add: cards_for_def printed_for_def)
  qed
qed

lemma flashcards_loop_total:
  "\<forall>p \<in> set ps. \<forall>e. gq p = Inl e \<longrightarrow> is_Exception e \<Longrightarrow>
   flashcards_loop gq ps (cs, out) =
     Inr (cs @ concat (map (cards_for gq) ps), out @ concat (map (printed_for gq) ps))"
proof (induction ps arbitrary: cs out)
  case Nil
  then show ?case by simp
next
  case (Cons p ps)
  then have IH: "\<And>cs out. flashcards_loop gq ps (cs, out) =
     Inr (cs @ concat (map (cards_for gq) ps), out @ concat (map (printed_for gq) ps))"
    by simp
  show ?case
  proof (cases "gq p")
    case (Inr qs)
    then have "cards_for gq p = map (\<lambda>q. (q, p)) qs" "printed_for gq p = []"
      by (simp_all add: cards_for_def printed_for_def)
    with Inr show ?thesis by (simp add: IH)
  next
    case (Inl e)
    then have "cards_for gq p = []"
      "printed_for gq p = [lit ''Error generating for paragraph: '' @ message e]"
      by (simp_all add: cards_for_def printed_for_def)
    moreover from Inl Cons.prems have "is_Exception e" by simp
    ultimately show ?thesis using Inl by (simp add: IH)
  qed
qed

lemma snd_cards_for: "c \<in> set (cards_for gq p) \<Longrightarrow> snd c = p"
  by (auto simp: cards_for_def split: sum.splits)

text \<open>
  C1: every flashcard returned by \<open>generate_flashcards\<close> has as its answer one of the
  paragraphs that \<open>get_relevant_paragraphs\<close> returns on the same text with the same bounds
  (80, 400 and \<open>max_flashcards\<close>), and that answer is a contiguous part of the text.
\<close>

theorem flashcard_answer_is_selected_paragraph:
  assumes "generate_flashcards gq text max_flashcards = Inr (cards, out)"
    and "c \<in> set cards"
  shows "snd c \<in> set (get_relevant_paragraphs text 80 400 max_flashcards) \<and> sublist (snd c) text"
proof -
  let ?ps = "get_relevant_paragraphs text 80 400 max_flashcards"
  from assms(1) have "cards = [] @ concat (map (cards_for gq) ?ps)"
    unfolding generate_flashcards_def by (rule flashcards_loop_Inr [THEN conjunct1])
  with assms(2) obtain p where p: "p \<in> set ?ps" and "c \<in> set (cards_for gq p)" by auto
  then have sc: "snd c = p" by (simp add: snd_cards_for)
  from p obtain s where s: "s \<in> set (str_split 0x0A text)" and ps: "p = strip s"
    by (blast dest: grp_strip_image)
  have "sublist (strip s) s" by (rule sublist_strip)
  moreover from s have "sublist s text" by (rule sublist_str_split)
  ultimately have "sublist p text"
    unfolding ps by (rule sublist_order.order_trans)
  with p sc show ?thesis by simp
qed

lemma str_split_no_sep: "sep \<notin> set l \<Longrightarrow> str_split sep l = [l]"
  by (induction l) auto

lemma str_split_line: "sep \<notin> set l \<Longrightarrow> str_split sep (l @ sep # rest) = l # str_split sep rest"
  by (induction l) auto

lemma str_split_join:
  "ls \<noteq> [] \<Longrightarrow> \<forall>l \<in> set ls. sep \<notin> set l \<Longrightarrow> str_split sep (str_join [sep] ls) = ls"
proof (induction "[sep]" ls rule: str_join.induct)
  case 1
  then show ?case by simp
next
  case (2 x)
  then show ?case by (simp add: str_split_no_sep)
next
  case (3 x y ys)
  then show ?case by (simp add: str_split_line)
qed

lemma strip_no_space: "\<forall>c \<in> set l. \<not> is_space c \<Longrightarrow> strip l = l"
  by (rule strip_fixed) (cases "l = []", simp_all)

lemma grp_lines:
  assumes "ls \<noteq> []" and "\<forall>l \<in> set ls. \<forall>c \<in> set l. \<not> is_space c"
  shows "get_relevant_paragraphs (str_join [0x0A] ls) lo hi lim =
           slice_to lim (filter (\<lambda>l. lo \<le> int (length l) \<and> int (length l) \<le> hi) ls)"
proof -
  have "\<forall>l \<in> set ls. 0x0A \<notin> set l"
    using assms(2) by (auto simp: is_space_def)
  with assms(1) have sp: "str_split 0x0A (str_join [0x0A] ls) = ls"
    by (rule str_split_join)
  have "map strip ls = ls"
    using assms(2) by (simp add: map_idI strip_no_space)
  then show ?thesis
    unfolding get_relevant_paragraphs_def sp grp_filter_map by simp
qed

text \<open>
  C3: when every failure of question generation on a selected paragraph is an \<^verbatim>\<open>Exception\<close>
  (the class the handler catches), \<open>generate_flashcards\<close> returns: the batch is never
  aborted. Its result is, paragraph by paragraph in order, the flashcards of each paragraph
  whose generation succeeded; a failing paragraph contributes no flashcard and one printed
  line, and takes nothing away from the paragraphs before and after it.
\<close>

theorem failed_paragraph_is_skipped:
  assumes "\<forall>p \<in> set (get_relevant_paragraphs text 80 400 max_flashcards).
             \<forall>e. gq p = Inl e \<longrightarrow> is_Exception e"
  shows "generate_flashcards gq text max_flashcards =
           Inr (concat (map (cards_for gq) (get_relevant_paragraphs text 80 400 max_flashcards)),
                concat (map (printed_for gq) (get_relevant_paragraphs text 80 400 max_flashcards)))"
  unfolding generate_flashcards_def using flashcards_loop_total [OF assms, of "[]" "[]"] by simp

lemma three_paragraphs:
  "get_relevant_paragraphs
     (str_join [0x0A] [replicate 80 0x41, replicate 80 0x42, replicate 80 0x43]) 80 400 25
   = [replicate 80 0x41, replicate 80 0x42, replicate 80 0x43]"
  by (subst grp_lines) (simp_all add: is_space_def slice_to_def)

text \<open>
  Witness for C3: three paragraphs of 80 characters, generation failing on the second; the
  flashcards of the first and of the third are both returned.
\<close>

theorem failed_paragraph_is_skipped_witness:
  "generate_flashcards
     (\<lambda>p. if hd p = 0x42 then Inl (Exn OtherException (lit ''boom'')) else Inr [lit ''Q?''])
     (str_join [0x0A] [replicate 80 0x41, replicate 80 0x42, replicate 80 0x43]) 25
   = Inr ([(lit ''Q?'', replicate 80 0x41), (lit ''Q?'', replicate 80 0x43)],
          [lit ''Error generating for paragraph: boom''])"
proof -
  let ?gq = "\<lambda>p. if hd p = (0x42::nat) then Inl (Exn OtherException (lit ''boom''))
                  else Inr [lit ''Q?'']"
  let ?text = "str_join [0x0A] [replicate 80 0x41, replicate 80 0x42, replicate 80 (0x43::nat)]"
  have h: "\<forall>p \<in> set (get_relevant_paragraphs ?text 80 400 25).
             \<forall>e. ?gq p = Inl e \<longrightarrow> is_Exception e"
    by (simp only: three_paragraphs) (simp add: is_Exception_def)
  show ?thesis
    using failed_paragraph_is_skipped [OF h]
    by (simp only: three_paragraphs) (simp add: cards_for_def printed_for_def lit_def)
qed

lemma two_lines:
  "get_relevant_paragraphs (str_join [0x0A] [replicate 90 0x41, replicate 10 0x42]) 80 400 25
   = [replicate 90 0x41]"
  by (subst grp_lines) (simp_all add: is_space_def slice_to_def)

text \<open>
  Witness for C1: the text of a 90-character line and a 10-character line; the second
  flashcard's answer is the 90-character line, a selected paragraph and a part of the text.
\<close>

theorem flashcard_answer_is_selected_paragraph_witness:
  "generate_flashcards (\<lambda>p. Inr [lit ''Q1'', lit ''Q2''])
     (str_join [0x0A] [replicate 90 0x41, replicate 10 0x42]) 25
     = Inr ([(lit ''Q1'', replicate 90 0x41), (lit ''Q2'', replicate 90 0x41)], []) \<and>
   (lit ''Q2'', replicate 90 (0x41::nat))
     \<in> set [(lit ''Q1'', replicate 90 0x41), (lit ''Q2'', replicate 90 0x41)] \<and>
   snd (lit ''Q2'', replicate 90 (0x41::nat))
     \<in> set (get_relevant_paragraphs
              (str_join [0x0A] [replicate 90 0x41, replicate 10 0x42]) 80 400 25) \<and>
   sublist (snd (lit ''Q2'', replicate 90 (0x41::nat)))
     (str_join [0x0A] [replicate 90 0x41, replicate 10 0x42])"
proof -
  have run: "generate_flashcards (\<lambda>p. Inr [lit ''Q1'', lit ''Q2''])
     (str_join [0x0A] [replicate 90 0x41, replicate 10 0x42]) 25
     = Inr ([(lit ''Q1'', replicate 90 0x41), (lit ''Q2'', replicate 90 0x41)], [])"
    unfolding generate_flashcards_def by (simp only: two_lines) simp
  have mem: "(lit ''Q2'', replicate 90 (0x41::nat))
     \<in> set [(lit ''Q1'', replicate 90 0x41), (lit ''Q2'', replicate 90 0x41)]"
    by simp
  show ?thesis
    using flashcard_answer_is_selected_paragraph [OF run mem] run mem by blast
qed

lemma source_positions_snoc:
  "source_positions gq (ps @ [p]) =
     source_positions gq ps @ replicate (length (cards_for gq p)) (length ps)"
proof -
  have m: "map (\<lambda>k. replicate (length (cards_for gq ((ps @ [p]) ! k))) k) [0..<length ps]
        = map (\<lambda>k. replicate (length (cards_for gq (ps ! k))) k) [0..<length ps]"
    by (rule map_cong) (simp_all add: nth_append)
  have "source_positions gq (ps @ [p]) =
          concat (map (\<lambda>k. replicate (length (cards_for gq ((ps @ [p]) ! k))) k) [0..<length ps])
          @ replicate (length (cards_for gq p)) (length ps)"
    by (simp add: source_positions_def)
  then show ?thesis by (simp only: m source_positions_def)
qed

lemma map_snd_cards_for: "map snd (cards_for gq p) = replicate (length (cards_for gq p)) p"
  by (cases "gq p") (simp_all add: cards_for_def map_replicate_const comp_def)

lemma source_positions_props:
  "length (source_positions gq ps) = length (concat (map (cards_for gq) ps))
   \<and> sorted (source_positions gq ps)
   \<and> list_all (\<lambda>k. k < length ps) (source_positions gq ps)
   \<and> map snd (concat (map (cards_for gq) ps)) = map (\<lambda>k. ps ! k) (source_positions gq ps)"
proof (induction ps rule: rev_induct)
  case Nil
  show ?case by (simp add: source_positions_def)
next
  case (snoc p ps)
  let ?src = "source_positions gq ps"
  let ?n = "length (cards_for gq p)"
  from snoc have len: "length ?src = length (concat (map (cards_for gq) ps))"
    and srt: "sorted ?src"
    and bnd: "list_all (\<lambda>k. k < length ps) ?src"
    and ans: "map snd (concat (map (cards_for gq) ps)) = map (\<lambda>k. ps ! k) ?src"
    by simp_all
  have "length (source_positions gq (ps @ [p])) = length (concat (map (cards_for gq) (ps @ [p])))"
    by (simp add: source_positions_snoc len)
  moreover have "sorted (source_positions gq (ps @ [p]))"
    using srt bnd by (auto simp: source_positions_snoc sorted_append list_all_iff less_imp_le)
  moreover have "list_all (\<lambda>k. k < length (ps @ [p])) (source_positions gq (ps @ [p]))"
    using bnd by (auto simp: source_positions_snoc list_all_iff)
  moreover have "map snd (concat (map (cards_for gq) (ps @ [p])))
        = map (\<lambda>k. (ps @ [p]) ! k) (source_positions gq (ps @ [p]))"
  proof -
    have "map (\<lambda>k. (ps @ [p]) ! k) ?src = map (\<lambda>k. ps ! k) ?src"
      using bnd by (intro map_cong) (auto simp: list_all_iff nth_append)
    then show ?thesis
      by (simp add: source_positions_snoc ans map_snd_cards_for)
  qed
  ultimately show ?case by (simp only: simp_thms)
qed

text \<open>
  C5: the returned list is in generation order, which is paragraph order: it is the
  concatenation, over the selected paragraphs in their order, of the flashcards of each
  paragraph. So one map gives every flashcard the position of the paragraph it was
  generated from, that paragraph is the flashcard's answer, and the map is monotone: for
  flashcards at positions i < j the source position of i is no later than that of j.
\<close>

theorem flashcards_follow_paragraph_order:
  assumes "generate_flashcards gq text max_flashcards = Inr (cards, out)"
  shows "cards = concat (map (cards_for gq) (get_relevant_paragraphs text 80 400 max_flashcards))
       \<and> length (source_positions gq (get_relevant_paragraphs text 80 400 max_flashcards))
           = length cards
       \<and> sorted (source_positions gq (get_relevant_paragraphs text 80 400 max_flashcards))
       \<and> list_all (\<lambda>k. k < length (get_relevant_paragraphs text 80 400 max_flashcards))
           (source_positions gq (get_relevant_paragraphs text 80 400 max_flashcards))
       \<and> map snd cards
           = map (\<lambda>k. get_relevant_paragraphs text 80 400 max_flashcards ! k)
               (source_positions gq (get_relevant_paragraphs text 80 400 max_flashcards))"
proof -
  let ?ps = "get_relevant_paragraphs text 80 400 max_flashcards"
  from assms have "cards = [] @ concat (map (cards_for gq) ?ps)"
    unfolding generate_flashcards_def by (rule flashcards_loop_Inr [THEN conjunct1])
  then have eq: "cards = concat (map (cards_for gq) ?ps)" by simp
  show ?thesis
    unfolding eq using source_positions_props [of gq ?ps] by (simp only: simp_thms)
qed

text \<open>
  Witness for C5: three paragraphs of 80 characters, the first and the third with the same
  text, two questions each; the six flashcards come from positions 0, 0, 1, 1, 2, 2.
\<close>

theorem flashcards_follow_paragraph_order_witness:
  "generate_flashcards (\<lambda>p. Inr [lit ''Q1'', lit ''Q2''])
     (str_join [0x0A] [replicate 80 0x41, replicate 80 0x42, replicate 80 0x41]) 25
     = Inr ([(lit ''Q1'', replicate 80 0x41), (lit ''Q2'', replicate 80 0x41),
             (lit ''Q1'', replicate 80 0x42), (lit ''Q2'', replicate 80 0x42),
             (lit ''Q1'', replicate 80 0x41), (lit ''Q2'', replicate 80 0x41)], [])
   \<and> source_positions (\<lambda>p. Inr [lit ''Q1'', lit ''Q2''])
       (get_relevant_paragraphs
          (str_join [0x0A] [replicate 80 0x41, replicate 80 0x42, replicate 80 0x41]) 80 400 25)
     = [0, 0, 1, 1, 2, 2]
   \<and> map snd [(lit ''Q1'', replicate 80 (0x41::nat)), (lit ''Q2'', replicate 80 0x41),
             (lit ''Q1'', replicate 80 0x42), (lit ''Q2'', replicate 80 0x42),
             (lit ''Q1'', replicate 80 0x41), (lit ''Q2'', replicate 80 0x41)]
     = map (\<lambda>k. get_relevant_paragraphs
          (str_join [0x0A] [replicate 80 0x41, replicate 80 0x42, replicate 80 0x41]) 80 400 25 ! k)
         (source_positions (\<lambda>p. Inr [lit ''Q1'', lit ''Q2''])
            (get_relevant_paragraphs
              (str_join [0x0A] [replicate 80 0x41, replicate 80 0x42, replicate 80 0x41])
              80 400 25))"
proof -
  let ?text = "str_join [0x0A] [replicate 80 0x41, replicate 80 0x42, replicate 80 (0x41::nat)]"
  let ?gq = "\<lambda>p::pystr. (Inr [lit ''Q1'', lit ''Q2''] :: exn + pystr list)"
  have ps: "get_relevant_paragraphs ?text 80 400 25
            = [replicate 80 0x41, replicate 80 0x42, replicate 80 0x41]"
    by (subst grp_lines) (simp_all add: is_space_def slice_to_def)
  have run: "generate_flashcards ?gq ?text 25
     = Inr ([(lit ''Q1'', replicate 80 0x41), (lit ''Q2'', replicate 80 0x41),
             (lit ''Q1'', replicate 80 0x42), (lit ''Q2'', replicate 80 0x42),
             (lit ''Q1'', replicate 80 0x41), (lit ''Q2'', replicate 80 0x41)], [])"
    unfolding generate_flashcards_def by (simp only: ps) simp
  have src: "source_positions ?gq (get_relevant_paragraphs ?text 80 400 25) = [0, 0, 1, 1, 2, 2]"
    by (simp only: ps) (simp add: source_positions_def cards_for_def upt_rec numeral_2_eq_2)
  note order = flashcards_follow_paragraph_order [OF run]
  show ?thesis
    by (rule conjI [OF run], rule conjI [OF src], rule order [THEN conjunct2, THEN conjunct2,
          THEN conjunct2, THEN conjunct2])
qed

section \<open>Properties of text extraction\<close>

lemma lit_txt: "lit ''.txt'' = [0x2E, 0x74, 0x78, 0x74]" by (simp add: lit_def)
lemma lit_docx: "lit ''.docx'' = [0x2E, 0x64, 0x6F, 0x63, 0x78]" by (simp add: lit_def)
lemma lit_pdf: "lit ''.pdf'' = [0x2E, 0x70, 0x64, 0x66]" by (simp add: lit_def)

lemma endswith_last: "endswith s suf \<Longrightarrow> suf \<noteq> [] \<Longrightarrow> last s = last suf"
proof -
  assume e: "endswith s suf" and ne: "suf \<noteq> []"
  then have d: "drop (length s - length suf) s = suf" and "length suf \<le> length s"
    by (simp_all add: endswith_def)
  with ne have "s \<noteq> []" "length s - length suf < length s" by (cases s; auto)+
  then have "last (drop (length s - length suf) s) = last s" by (simp add: last_drop)
  with d show ?thesis by simp
qed

lemma docx_not_txt: "endswith path (lit ''.docx'') \<Longrightarrow> \<not> endswith path (lit ''.txt'')"
  by (auto dest!: endswith_last simp: lit_txt lit_docx)

lemma pdf_not_txt: "endswith path (lit ''.pdf'') \<Longrightarrow> \<not> endswith path (lit ''.txt'')"
  by (auto dest!: endswith_last simp: lit_txt lit_pdf)

lemma pdf_not_docx: "endswith path (lit ''.pdf'') \<Longrightarrow> \<not> endswith path (lit ''.docx'')"
  by (auto dest!: endswith_last simp: lit_docx lit_pdf)

lemma foldl_append_concat: "foldl (\<lambda>text page. text @ page) acc pages = acc @ concat pages"
  by (induction pages arbitrary: acc) simp_all

lemma extract_unsupported:
  "\<not> endswith path (lit ''.txt'') \<Longrightarrow> \<not> endswith path (lit ''.docx'') \<Longrightarrow>
   \<not> endswith path (lit ''.pdf'') \<Longrightarrow>
   extract_text env path = Inl (Exn ValueError (lit ''Unsupported file type.''))"
  by (simp add: extract_text_def)

lemma extract_txt:
  "endswith path (lit ''.txt'') \<Longrightarrow> extract_text env path = read_utf8 env path"
  by (simp add: extract_text_def)

lemma extract_docx:
  "endswith path (lit ''.docx'') \<Longrightarrow> docx_paragraphs env path = Inr paragraphs \<Longrightarrow>
   extract_text env path = Inr (str_join [0x0A] (filter (\<lambda>t. strip t \<noteq> []) paragraphs))"
  by (simp add: extract_text_def extract_text_from_docx_def docx_not_txt)

lemma extract_pdf:
  "endswith path (lit ''.pdf'') \<Longrightarrow> pdf_pages env path = Inr pages \<Longrightarrow>
   extract_text env path = Inr (concat pages)"
  by (simp add: extract_text_def extract_text_from_pdf_def pdf_not_txt pdf_not_docx
      foldl_append_concat)

lemma str_join_nonempty: "\<exists>x \<in> set xs. x \<noteq> [] \<Longrightarrow> str_join sep xs \<noteq> []"
  by (induction sep xs rule: str_join.induct) auto

lemma strip_Nil: "strip [] = []"
  by (simp add: strip_def)

lemma ends_eval:
  "endswith (lit ''notes.txt'') (lit ''.txt'')"
  "endswith (lit ''notes.docx'') (lit ''.docx'')"
  "endswith (lit ''notes.pdf'') (lit ''.pdf'')"
  "\<not> endswith (lit ''notes.csv'') (lit ''.txt'')"
  "\<not> endswith (lit ''notes.csv'') (lit ''.docx'')"
  "\<not> endswith (lit ''notes.csv'') (lit ''.pdf'')"
  by (simp_all add: endswith_def lit_def)

text \<open>
  C4: for a path that ends in none of \<^verbatim>\<open>.txt\<close>, \<^verbatim>\<open>.docx\<close>, \<^verbatim>\<open>.pdf\<close>, \<open>extract_text\<close> raises
  \<^verbatim>\<open>ValueError("Unsupported file type.")\<close> and returns no text; for a path with a recognized
  extension whose decoder succeeds it returns the content as one string: the text read from
  a \<^verbatim>\<open>.txt\<close> file, the non-blank paragraph texts of a \<^verbatim>\<open>.docx\<close> document joined by newlines,
  the page texts of a \<^verbatim>\<open>.pdf\<close> document concatenated in page order.
\<close>

theorem extract_text_dispatch:
  "(\<not> endswith path (lit ''.txt'') \<and> \<not> endswith path (lit ''.docx'')
      \<and> \<not> endswith path (lit ''.pdf'')
      \<longrightarrow> extract_text env path = Inl (Exn ValueError (lit ''Unsupported file type.'')))
   \<and> (endswith path (lit ''.txt'') \<and> read_utf8 env path = Inr content
      \<longrightarrow> extract_text env path = Inr content)
   \<and> (endswith path (lit ''.docx'') \<and> docx_paragraphs env path = Inr paragraphs
      \<longrightarrow> extract_text env path
            = Inr (str_join [0x0A] (filter (\<lambda>t. strip t \<noteq> []) paragraphs)))
   \<and> (endswith path (lit ''.pdf'') \<and> pdf_pages env path = Inr pages
      \<longrightarrow> extract_text env path = Inr (concat pages))"
  by (simp add: extract_unsupported extract_txt extract_docx extract_pdf)

text \<open>
  Witness for C4: the paths \<^verbatim>\<open>notes.csv\<close>, \<^verbatim>\<open>notes.txt\<close>, \<^verbatim>\<open>notes.docx\<close> and \<^verbatim>\<open>notes.pdf\<close>
  under the example decoders.
\<close>

theorem extract_text_dispatch_witness:
  "extract_text example_decoders (lit ''notes.csv'')
     = Inl (Exn ValueError (lit ''Unsupported file type.''))
   \<and> extract_text example_decoders (lit ''notes.txt'') = Inr (lit ''hello'')
   \<and> extract_text example_decoders (lit ''notes.docx'') = Inr (lit ''p1'' @ [0x0A] @ lit ''p2'')
   \<and> extract_text example_decoders (lit ''notes.pdf'') = Inr (lit ''page1'' @ lit ''page2'')"
proof -
  have d: "read_utf8 example_decoders (lit ''notes.txt'') = Inr (lit ''hello'')"
    "docx_paragraphs example_decoders (lit ''notes.docx'') = Inr [lit ''p1'', [0x20], lit ''p2'']"
    "pdf_pages example_decoders (lit ''notes.pdf'') = Inr [lit ''page1'', lit ''page2'']"
    by (simp_all add: example_decoders_def)
  have j: "str_join [0x0A] (filter (\<lambda>t. strip t \<noteq> []) [lit ''p1'', [0x20], lit ''p2''])
           = lit ''p1'' @ [0x0A] @ lit ''p2''"
    by (simp add: strip_def is_space_def lit_def)
  have c: "concat [lit ''page1'', lit ''page2''] = lit ''page1'' @ lit ''page2''" by simp
  show ?thesis
    using extract_text_dispatch [where path = "lit ''notes.csv''" and env = example_decoders]
      extract_text_dispatch [where path = "lit ''notes.txt''" and env = example_decoders and content = "lit ''hello''"]
      extract_text_dispatch [where path = "lit ''notes.docx''" and env = example_decoders
            and paragraphs = "[lit ''p1'', [0x20], lit ''p2'']"]
      extract_text_dispatch [where path = "lit ''notes.pdf''" and env = example_decoders
            and pages = "[lit ''page1'', lit ''page2'']"]
    by (simp only: ends_eval d j c simp_thms)
qed

text \<open>
  C9, as amended: \<open>extract_text\<close> returns a non-empty string for a \<^verbatim>\<open>.txt\<close> file whose text is
  not empty, for a \<^verbatim>\<open>.docx\<close> document with at least one paragraph that is not blank (not
  empty after trimming), and for a \<^verbatim>\<open>.pdf\<close> document with at least one page whose extracted
  text is not empty.
\<close>

theorem extract_text_nonempty:
  "(endswith path (lit ''.txt'') \<and> read_utf8 env path = Inr content \<and> content \<noteq> []
      \<longrightarrow> (\<exists>s. extract_text env path = Inr s \<and> s \<noteq> []))
   \<and> (endswith path (lit ''.docx'') \<and> docx_paragraphs env path = Inr paragraphs
        \<and> list_ex (\<lambda>t. strip t \<noteq> []) paragraphs
      \<longrightarrow> (\<exists>s. extract_text env path = Inr s \<and> s \<noteq> []))
   \<and> (endswith path (lit ''.pdf'') \<and> pdf_pages env path = Inr pages
        \<and> list_ex (\<lambda>page. page \<noteq> []) pages
      \<longrightarrow> (\<exists>s. extract_text env path = Inr s \<and> s \<noteq> []))"
proof (intro conjI impI)
  assume "endswith path (lit ''.txt'') \<and> read_utf8 env path = Inr content \<and> content \<noteq> []"
  then show "\<exists>s. extract_text env path = Inr s \<and> s \<noteq> []" by (simp add: extract_txt)
next
  assume a: "endswith path (lit ''.docx'') \<and> docx_paragraphs env path = Inr paragraphs
        \<and> list_ex (\<lambda>t. strip t \<noteq> []) paragraphs"
  then obtain t where "t \<in> set paragraphs" "strip t \<noteq> []" by (auto simp: list_ex_iff)
  then have "t \<in> set (filter (\<lambda>t. strip t \<noteq> []) paragraphs)" "t \<noteq> []"
    by (auto simp: strip_Nil)
  then have "str_join [0x0A] (filter (\<lambda>t. strip t \<noteq> []) paragraphs) \<noteq> []"
    by (intro str_join_nonempty) blast
  with a show "\<exists>s. extract_text env path = Inr s \<and> s \<noteq> []" by (simp add: extract_docx)
next
  assume a: "endswith path (lit ''.pdf'') \<and> pdf_pages env path = Inr pages
        \<and> list_ex (\<lambda>page. page \<noteq> []) pages"
  then have "concat pages \<noteq> []" by (auto simp: list_ex_iff)
  with a show "\<exists>s. extract_text env path = Inr s \<and> s \<noteq> []" by (simp add: extract_pdf)
qed

text \<open>Witness for C9: the three example documents.\<close>

theorem extract_text_nonempty_witness:
  "(\<exists>s. extract_text example_decoders (lit ''notes.txt'') = Inr s \<and> s \<noteq> [])
   \<and> (\<exists>s. extract_text example_decoders (lit ''notes.docx'') = Inr s \<and> s \<noteq> [])
   \<and> (\<exists>s. extract_text example_decoders (lit ''notes.pdf'') = Inr s \<and> s \<noteq> [])"
proof -
  have d: "read_utf8 example_decoders (lit ''notes.txt'') = Inr (lit ''hello'')"
    "docx_paragraphs example_decoders (lit ''notes.docx'') = Inr [lit ''p1'', [0x20], lit ''p2'']"
    "pdf_pages example_decoders (lit ''notes.pdf'') = Inr [lit ''page1'', lit ''page2'']"
    by (simp_all add: example_decoders_def)
  have n: "lit ''hello'' \<noteq> []"
    "list_ex (\<lambda>t. strip t \<noteq> []) [lit ''p1'', [0x20], lit ''p2'']"
    "list_ex (\<lambda>page. page \<noteq> []) [lit ''page1'', lit ''page2'']"
    by (simp_all add: strip_def is_space_def lit_def)
  show ?thesis
    using extract_text_nonempty [where path = "lit ''notes.txt''" and env = example_decoders and content = "lit ''hello''"]
      extract_text_nonempty [where path = "lit ''notes.docx''" and env = example_decoders
            and paragraphs = "[lit ''p1'', [0x20], lit ''p2'']"]
      extract_text_nonempty [where path = "lit ''notes.pdf''" and env = example_decoders
            and pages = "[lit ''page1'', lit ''page2'']"]
    by (simp only: ends_eval d n simp_thms)
qed

text \<open>
  Counterexample to C9 as stated: a word-processor document whose only paragraph is one
  space is not empty, and its extraction is the empty string, since \<open>extract_text_from_docx\<close>
  keeps only the paragraphs that are not blank.
\<close>

theorem blank_docx_extracts_empty:
  "docx_paragraphs blank_docx_decoders (lit ''notes.docx'') = Inr [[0x20]]
   \<and> extract_text blank_docx_decoders (lit ''notes.docx'') = Inr []"
proof -
  have d: "docx_paragraphs blank_docx_decoders (lit ''notes.docx'') = Inr [[0x20]]"
    by (simp add: blank_docx_decoders_def)
  have "extract_text blank_docx_decoders (lit ''notes.docx'')
        = Inr (str_join [0x0A] (filter (\<lambda>t. strip t \<noteq> []) [[0x20]]))"
    using ends_eval(2) d by (rule extract_docx)
  then show ?thesis using d by (simp add: strip_def is_space_def)
qed

section \<open>Properties of the export\<close>

lemma export_to_word_Nil:
  "export_to_word path now [] fs =
     Inr (fs(path \<mapsto> DocxFile [Heading (lit ''Flashcards'') 1,
                                Para (lit ''Generated on '' @ now @ [0x0A]) None]))"
  by (simp add: export_to_word_def)

text \<open>
  A flashcard text with a control character, here a form feed in the answer, makes
  \<open>export_to_word\<close> raise, and \<open>export_output\<close> with it on the Word path.
\<close>

lemma export_to_word_control_character:
  "export_to_word path now [(lit ''Q?'', [0x41, 0x0C, 0x42])] fs = Inl xml_error"
  by (simp add: export_to_word_def docx_accepts_def lit_def)

lemma export_to_pdf_Nil:
  "export_to_pdf path now [] fs =
     fs(path \<mapsto> PdfFile [[SetFont (lit ''Helvetica-Bold'') 14,
                           DrawString 50 742 (lit ''Flashcards''),
                           SetFont (lit ''Helvetica'') 10,
                           DrawString 50 717 (lit ''Generated on '' @ now)]])"
  by (simp add: export_to_pdf_def letter_def pdf_header_def new_canvas_def setFont_def
      drawString_def save_def showPage_def)

lemma export_output_no_flashcards:
  "flashcards self = [] \<Longrightarrow>
   export_output asked save_as now self =
     Inr (self\<lparr>boxes := boxes self @
            [ShowInfo (lit ''No data'') (lit ''Please generate flashcards first.'')]\<rparr>)"
  by (simp add: export_output_def)

text \<open>
  C6, as amended: called with no flashcards, \<open>export_to_word\<close> and \<open>export_to_pdf\<close> each write
  a file that holds the title and the generation timestamp and nothing else; the
  application's export command \<open>export_output\<close>, the only caller of the two, does not reach
  them when there are no flashcards: it shows the notice "No data" and returns, whatever
  the user would answer, leaving the files and the state otherwise unchanged.
\<close>

theorem export_of_no_flashcards:
  "export_to_word path now [] fs
     = Inr (fs(path \<mapsto> DocxFile [Heading (lit ''Flashcards'') 1,
                                  Para (lit ''Generated on '' @ now @ [0x0A]) None]))
   \<and> export_to_pdf path now [] fs path
     = Some (PdfFile [[SetFont (lit ''Helvetica-Bold'') 14,
                       DrawString 50 742 (lit ''Flashcards''),
                       SetFont (lit ''Helvetica'') 10,
                       DrawString 50 717 (lit ''Generated on '' @ now)]])
   \<and> export_output asked save_as now (self\<lparr>flashcards := []\<rparr>)
     = Inr (self\<lparr>flashcards := [],
                 boxes := boxes self @
                   [ShowInfo (lit ''No data'') (lit ''Please generate flashcards first.'')]\<rparr>)"
  by (simp add: export_to_word_Nil export_to_pdf_Nil export_output_no_flashcards)

text \<open>
  Counterexample to C6 as stated: with no flashcards stored, \<open>export_output\<close> writes no file,
  neither on the PDF path nor on the Word path.
\<close>

theorem export_output_refuses_empty:
  "export_output (Some (lit ''pdf'')) (lit ''out.pdf'') (lit ''2024-01-01 10:00'') empty_app
     = Inr (empty_app\<lparr>boxes :=
              [ShowInfo (lit ''No data'') (lit ''Please generate flashcards first.'')]\<rparr>)
   \<and> files (empty_app\<lparr>boxes :=
              [ShowInfo (lit ''No data'') (lit ''Please generate flashcards first.'')]\<rparr>)
        (lit ''out.pdf'') = None
   \<and> export_output (Some (lit ''word'')) (lit ''out.docx'') (lit ''2024-01-01 10:00'') empty_app
     = Inr (empty_app\<lparr>boxes :=
              [ShowInfo (lit ''No data'') (lit ''Please generate flashcards first.'')]\<rparr>)
   \<and> files (empty_app\<lparr>boxes :=
              [ShowInfo (lit ''No data'') (lit ''Please generate flashcards first.'')]\<rparr>)
        (lit ''out.docx'') = None"
  by (simp add: export_output_no_flashcards empty_app_def)

text \<open>
  C7, at the input where the code departs from it: with flashcards stored and the format
  dialog cancelled, \<^verbatim>\<open>askstring\<close> returns \<^verbatim>\<open>None\<close> and \<open>export_output\<close> raises
  \<^verbatim>\<open>AttributeError\<close> before the validity check, so no "Invalid format" box is shown.
\<close>

theorem export_output_cancelled_dialog_raises:
  "flashcards one_card_app \<noteq> []
   \<and> export_output None save_as now one_card_app
     = Inl (Exn AttributeError
              (quoted (lit ''NoneType'') @ lit '' object has no attribute '' @
               quoted (lit ''strip'')))"
  by (simp add: export_output_def one_card_app_def)

text \<open>
  For an answer that was typed, the claim of C7 holds: an answer that is neither
  \<^verbatim>\<open>pdf\<close> nor \<^verbatim>\<open>word\<close> after trimming and lowering is reported in an error box, and the
  files, the flashcards and the status are unchanged.
\<close>

lemma invalid_format_reported:
  assumes "flashcards self \<noteq> []"
    and "lower (strip answer) \<noteq> lit ''pdf''" and "lower (strip answer) \<noteq> lit ''word''"
  shows "export_output (Some answer) save_as now self =
     Inr (self\<lparr>boxes := boxes self @
            [ShowError (lit ''Invalid format'')
               (lit ''Please enter '' @ quoted (lit ''pdf'') @ lit '' or '' @
                quoted (lit ''word'') @ lit ''.'')]\<rparr>)"
  using assms by (simp add: export_output_def)

section \<open>Properties of the PDF pagination\<close>

text \<open>One pass of the loop, written out.\<close>

lemma pdf_card_eq:
  "pdf_card 792 i fc (c, y) =
     ((if y < 100 then showPage c else c)
        \<lparr>code := code (if y < 100 then showPage c else c)
                 @ card_ops (if y < 100 then 742 else y) i fc\<rparr>,
      (if y < 100 then 742 else y) - 55)"
  by (cases fc) (simp add: pdf_card_def card_ops_def setFont_def drawString_def showPage_def)

lemma pdf_loop_append:
  "pdf_loop h i (xs @ ys) st = pdf_loop h (i + length xs) ys (pdf_loop h i xs st)"
  by (induction xs arbitrary: i st) simp_all

text \<open>
  The closed forms \<open>y_at\<close> and \<open>page_at\<close> follow the test \<^verbatim>\<open>y < 100\<close> of the loop from one
  card to the next.
\<close>

lemma pdf_height_step:
  fixes k :: nat
  shows "y_at (55 * int (Suc k)) = (if y_at (55 * int k) - 55 < 100 then 742 else y_at (55 * int k) - 55)
       \<and> page_at (55 * int (Suc k)) = page_at (55 * int k) + (if y_at (55 * int k) - 55 < 100 then 1 else 0)"
proof (cases "k < 10")
  case True
  then show ?thesis by (simp add: y_at_def page_at_def)
next
  case False
  show ?thesis
  proof (cases "k = 10")
    case True
    then show ?thesis by (simp add: y_at_def page_at_def)
  next
    case False
    with \<open>\<not> k < 10\<close> obtain m where k: "k = 11 + m" by (metis le_Suc_ex not_less_eq_eq Suc_leI le_neq_implies_less eval_nat_numeral(3) linorder_not_less Suc_numeral semiring_norm(2,8) add_Suc)
    have a: "55 * int k - 605 = 55 * int m" using k by simp
    have b: "55 * int (Suc k) - 605 = 55 * int (Suc m)" using k by simp
    have m1: "(55 * int m) mod 660 = 55 * int (m mod 12)"
      using mult_mod_right [of 55 "int m" 12] by (simp add: zmod_int)
    have m2: "(55 * int (Suc m)) mod 660 = 55 * int (Suc m mod 12)"
      using mult_mod_right [of 55 "int (Suc m)" 12] by (simp add: zmod_int)
    have d1: "nat ((55 * int m) div 660) = m div 12"
      using div_mult_mult1 [of "55::int" "int m" 12] by (simp add: nat_div_distrib)
    have d2: "nat ((55 * int (Suc m)) div 660) = Suc m div 12"
      using div_mult_mult1 [of "55::int" "int (Suc m)" 12] by (simp add: nat_div_distrib)
    have ge: "\<not> 55 * int k < 605" "\<not> 55 * int (Suc k) < 605" using k by simp_all
    have ya: "y_at (55 * int k) = 742 - 55 * int (m mod 12)"
      unfolding y_at_def using ge a m1 by simp
    have yb: "y_at (55 * int (Suc k)) = 742 - 55 * int (Suc m mod 12)"
      unfolding y_at_def using ge b m2 by simp
    have pa: "page_at (55 * int k) = 1 + m div 12"
      unfolding page_at_def using ge a d1 by simp
    have pb: "page_at (55 * int (Suc k)) = 1 + Suc m div 12"
      unfolding page_at_def using ge b d2 by simp
    have lt: "m mod 12 < 12" by simp
    show ?thesis
    proof (cases "m mod 12 = 11")
      case True
      then have "Suc m mod 12 = 0" "Suc m div 12 = Suc (m div 12)"
        by (simp_all add: mod_Suc div_Suc)
      with True ya yb pa pb show ?thesis by simp
    next
      case False
      with lt have r: "m mod 12 < 11" by linarith
      with False have "Suc m mod 12 = Suc (m mod 12)" "Suc m div 12 = m div 12"
        by (simp_all add: mod_Suc div_Suc)
      with r ya yb pa pb show ?thesis by simp
    qed
  qed
qed


lemma pdf_header_eq:
  "pdf_header 792 now =
     (\<lparr>pages_done = [],
       code = [SetFont (lit ''Helvetica-Bold'') 14, DrawString 50 742 (lit ''Flashcards''),
               SetFont (lit ''Helvetica'') 10, DrawString 50 717 (lit ''Generated on '' @ now)]\<rparr>,
      687)"
  by (simp add: pdf_header_def new_canvas_def setFont_def drawString_def)

lemma card_ops_nonempty: "card_ops y i fc \<noteq> []"
  by (simp add: card_ops_def)

text \<open>
  The state of the loop after a card: the height left, the number of pages closed, and
  the operations of the card at the end of the page being drawn.
\<close>

lemma pdf_loop_invariant:
  "pdf_loop 792 1 (pre @ [fc]) (pdf_header 792 now) = (c, y) \<Longrightarrow>
     y = y_at (55 * int (length pre)) - 55
     \<and> length (pages_done c) = page_at (55 * int (length pre))
     \<and> (\<exists>X. code c = X @ card_ops (y_at (55 * int (length pre))) (Suc (length pre)) fc)"
proof (induction pre arbitrary: fc c y rule: rev_induct)
  case Nil
  then show ?case
    by (auto simp add: pdf_header_eq pdf_card_eq y_at_def page_at_def)
next
  case (snoc x xs)
  obtain c1 y1 where st: "pdf_loop 792 1 (xs @ [x]) (pdf_header 792 now) = (c1, y1)"
    by (cases "pdf_loop 792 1 (xs @ [x]) (pdf_header 792 now)")
  from snoc.IH [OF st] obtain X where
    y1: "y1 = y_at (55 * int (length xs)) - 55" and
    p1: "length (pages_done c1) = page_at (55 * int (length xs))" and
    c1: "code c1 = X @ card_ops (y_at (55 * int (length xs))) (Suc (length xs)) x"
    by blast
  have "pdf_loop 792 1 ((xs @ [x]) @ [fc]) (pdf_header 792 now)
          = pdf_card 792 (Suc (Suc (length xs))) fc (c1, y1)"
    by (simp only: pdf_loop_append [of 792 1 "xs @ [x]" "[fc]"] st) simp
  with snoc.prems have eq: "pdf_card 792 (Suc (Suc (length xs))) fc (c1, y1) = (c, y)"
    by simp
  note hs = pdf_height_step [of "length xs"]
  show ?case
  proof (cases "y1 < 100")
    case True
    with eq y1 p1 hs show ?thesis
      by (auto simp add: pdf_card_eq showPage_def)
  next
    case False
    with eq y1 p1 hs show ?thesis
      by (auto simp add: pdf_card_eq)
  qed
qed

text \<open>
  The rest of the loop and \<^verbatim>\<open>save\<close> keep the closed pages and only add to the page being
  drawn.
\<close>

lemma save_prefix:
  "prefix (pages_done c) (save (fst (pdf_loop 792 i cards (c, y))))"
proof (induction cards arbitrary: i c y)
  case Nil
  show ?case by (simp add: save_def showPage_def)
next
  case (Cons fc rest)
  let ?c = "(if y < 100 then showPage c else c)
              \<lparr>code := code (if y < 100 then showPage c else c)
                       @ card_ops (if y < 100 then 742 else y) i fc\<rparr>"
  let ?y = "(if y < 100 then 742 else y) - 55"
  have step: "pdf_loop 792 i (fc # rest) (c, y) = pdf_loop 792 (i + 1) rest (?c, ?y)"
    by (simp only: pdf_loop.simps pdf_card_eq)
  have "prefix (pages_done c) (pages_done ?c)"
    by (simp add: showPage_def)
  moreover have "prefix (pages_done ?c) (save (fst (pdf_loop 792 (i + 1) rest (?c, ?y))))"
    by (rule Cons.IH)
  ultimately show ?case
    unfolding step by (rule prefix_order.trans)
qed

lemma save_current:
  "code c \<noteq> [] \<Longrightarrow>
     length (pages_done c) < length (save (fst (pdf_loop 792 i cards (c, y))))
     \<and> prefix (code c) (save (fst (pdf_loop 792 i cards (c, y))) ! length (pages_done c))"
proof (induction cards arbitrary: i c y)
  case Nil
  then show ?case by (simp add: save_def showPage_def)
next
  case (Cons fc rest)
  let ?c = "(if y < 100 then showPage c else c)
              \<lparr>code := code (if y < 100 then showPage c else c)
                       @ card_ops (if y < 100 then 742 else y) i fc\<rparr>"
  let ?y = "(if y < 100 then 742 else y) - 55"
  let ?S = "save (fst (pdf_loop 792 (i + 1) rest (?c, ?y)))"
  have step: "pdf_loop 792 i (fc # rest) (c, y) = pdf_loop 792 (i + 1) rest (?c, ?y)"
    by (simp only: pdf_loop.simps pdf_card_eq)
  show ?case
  proof (cases "y < 100")
    case True
    have "prefix (pages_done ?c) ?S" by (rule save_prefix)
    with True have "prefix (pages_done c @ [code c]) ?S" by (simp add: showPage_def)
    then obtain zs where "?S = (pages_done c @ [code c]) @ zs" by (auto simp: prefix_def)
    then have "length (pages_done c) < length ?S \<and> ?S ! length (pages_done c) = code c"
      by simp
    then show ?thesis unfolding step by simp
  next
    case False
    have ne: "code ?c \<noteq> []" by (simp add: card_ops_nonempty)
    from Cons.IH [OF ne, of "i + 1" ?y] False
    have "length (pages_done c) < length ?S
          \<and> prefix (code c @ card_ops y i fc) (?S ! length (pages_done c))"
      by simp
    then show ?thesis unfolding step by (auto dest: append_prefixD)
  qed
qed

lemma export_to_pdf_eq:
  "export_to_pdf path now cards fs
     = fs(path \<mapsto> PdfFile (save (fst (pdf_loop 792 1 cards (pdf_header 792 now)))))"
  by (simp add: export_to_pdf_def letter_def split_beta)

lemma card_on_page:
  "page_at (55 * int (length pre))
     < length (save (fst (pdf_loop 792 1 (pre @ fc # post) (pdf_header 792 now))))
   \<and> sublist (card_ops (y_at (55 * int (length pre))) (Suc (length pre)) fc)
       (save (fst (pdf_loop 792 1 (pre @ fc # post) (pdf_header 792 now)))
          ! page_at (55 * int (length pre)))"
proof -
  obtain c y where st: "pdf_loop 792 1 (pre @ [fc]) (pdf_header 792 now) = (c, y)"
    by (cases "pdf_loop 792 1 (pre @ [fc]) (pdf_header 792 now)")
  from pdf_loop_invariant [OF st] obtain X where
    p: "length (pages_done c) = page_at (55 * int (length pre))" and
    c: "code c = X @ card_ops (y_at (55 * int (length pre))) (Suc (length pre)) fc"
    by blast
  let ?S = "save (fst (pdf_loop 792 (1 + length (pre @ [fc])) post (c, y)))"
  have all: "pdf_loop 792 1 (pre @ fc # post) (pdf_header 792 now)
               = pdf_loop 792 (1 + length (pre @ [fc])) post (c, y)"
    using pdf_loop_append [of 792 1 "pre @ [fc]" post "pdf_header 792 now"] st by simp
  have ne: "code c \<noteq> []" using c card_ops_nonempty by simp
  from save_current [OF ne, of "1 + length (pre @ [fc])" post y]
  have lt: "length (pages_done c) < length ?S"
    and pf: "prefix (code c) (?S ! length (pages_done c))" by simp_all
  from pf obtain Z where "?S ! length (pages_done c) = code c @ Z" by (auto simp: prefix_def)
  with c have "?S ! length (pages_done c)
                 = X @ card_ops (y_at (55 * int (length pre))) (Suc (length pre)) fc @ Z"
    by simp
  then have "sublist (card_ops (y_at (55 * int (length pre))) (Suc (length pre)) fc)
               (?S ! length (pages_done c))"
    unfolding sublist_def by blast
  with lt show ?thesis unfolding all p by simp
qed

lemma page_count:
  "length (save (fst (pdf_loop 792 1 (pre @ [fc]) (pdf_header 792 now))))
     = Suc (page_at (55 * int (length pre)))"
proof -
  obtain c y where st: "pdf_loop 792 1 (pre @ [fc]) (pdf_header 792 now) = (c, y)"
    by (cases "pdf_loop 792 1 (pre @ [fc]) (pdf_header 792 now)")
  from pdf_loop_invariant [OF st] obtain X where
    p: "length (pages_done c) = page_at (55 * int (length pre))" and
    c: "code c = X @ card_ops (y_at (55 * int (length pre))) (Suc (length pre)) fc"
    by blast
  have ne: "code c \<noteq> []" using c card_ops_nonempty by simp
  then show ?thesis unfolding st using p by (simp add: save_def showPage_def)
qed

text \<open>
  C8. In \<^verbatim>\<open>export_to_pdf\<close> one pass of the loop closes the page and restarts at height
  742 exactly when the height left before the card is below 100, draws the card, and
  lowers the height by the fixed 55 points, whatever the card holds. In the file written
  for any flashcards \<open>pre @ fc # post\<close>, the card \<open>fc\<close> is drawn on the page \<open>page_at h\<close> from
  the height \<open>y_at h\<close>, where \<open>h\<close> is the cumulative height 55 times the number of the cards
  before it: the page depends on that height alone, not on the questions and answers. The
  file has one page more than the index of the page of the last card.
\<close>

theorem pdf_page_breaks:
  "pdf_card 792 i fc (c, y) =
     ((if y < 100 then showPage c else c)
        \<lparr>code := code (if y < 100 then showPage c else c)
                 @ card_ops (if y < 100 then 742 else y) i fc\<rparr>,
      (if y < 100 then 742 else y) - 55)
   \<and> (\<exists>pages. export_to_pdf path now (pre @ fc # post) fs = fs(path \<mapsto> PdfFile pages)
        \<and> length pages = Suc (page_at (55 * int (length pre + length post)))
        \<and> page_at (55 * int (length pre)) < length pages
        \<and> sublist (card_ops (y_at (55 * int (length pre))) (Suc (length pre)) fc)
            (pages ! page_at (55 * int (length pre))))"
proof -
  let ?cards = "pre @ fc # post"
  let ?S = "save (fst (pdf_loop 792 1 ?cards (pdf_header 792 now)))"
  have ne: "?cards \<noteq> []" by simp
  have "?cards = butlast ?cards @ [last ?cards]"
    by (rule append_butlast_last_id [OF ne, symmetric])
  then have "length ?S = Suc (page_at (55 * int (length (butlast ?cards))))"
    using page_count [where pre = "butlast ?cards" and fc = "last ?cards" and now = now] by simp
  then have n: "length ?S = Suc (page_at (55 * int (length pre + length post)))"
    by simp
  have mono: "page_at (55 * int (length pre)) < length ?S"
    using card_on_page [where pre = pre and fc = fc and now = now and post = post]
    by (rule conjunct1)
  have sub: "sublist (card_ops (y_at (55 * int (length pre))) (Suc (length pre)) fc)
               (?S ! page_at (55 * int (length pre)))"
    using card_on_page [where pre = pre and fc = fc and now = now and post = post]
    by (rule conjunct2)
  show ?thesis
  proof (rule conjI)
    show "pdf_card 792 i fc (c, y) =
            ((if y < 100 then showPage c else c)
               \<lparr>code := code (if y < 100 then showPage c else c)
                        @ card_ops (if y < 100 then 742 else y) i fc\<rparr>,
             (if y < 100 then 742 else y) - 55)"
      by (rule pdf_card_eq)
    show "\<exists>pages. export_to_pdf path now ?cards fs = fs(path \<mapsto> PdfFile pages)
            \<and> length pages = Suc (page_at (55 * int (length pre + length post)))
            \<and> page_at (55 * int (length pre)) < length pages
            \<and> sublist (card_ops (y_at (55 * int (length pre))) (Suc (length pre)) fc)
                (pages ! page_at (55 * int (length pre)))"
    proof (rule exI [where x = ?S], intro conjI)
      show "export_to_pdf path now ?cards fs = fs(path \<mapsto> PdfFile ?S)"
        by (rule export_to_pdf_eq)
      show "length ?S = Suc (page_at (55 * int (length pre + length post)))" by (rule n)
      show "page_at (55 * int (length pre)) < length ?S" by (rule mono)
      show "sublist (card_ops (y_at (55 * int (length pre))) (Suc (length pre)) fc)
              (?S ! page_at (55 * int (length pre)))" by (rule sub)
    qed
  qed
qed

text \<open>
  Values of the closed forms: cards 1 to 11 are on the first page, cards 12 to 23 on the
  second, card 24 opens the third.
\<close>

lemma page_examples:
  "page_at (55 * int 0) = 0 \<and> page_at (55 * int 10) = 0 \<and> page_at (55 * int 11) = 1
   \<and> page_at (55 * int 22) = 1 \<and> page_at (55 * int 23) = 2
   \<and> y_at (55 * int 0) = 687 \<and> y_at (55 * int 10) = 137 \<and> y_at (55 * int 11) = 742
   \<and> y_at (55 * int 22) = 137 \<and> y_at (55 * int 23) = 742"
  by (simp add: page_at_def y_at_def)


text \<open>
  Witness for C8: eleven cards fit below the header of the first page, so the twelfth card
  opens the second page at height 742 and the file has two pages.
\<close>

theorem pdf_page_breaks_witness:
  "\<exists>pages. export_to_pdf (lit ''out.pdf'') (lit ''2024-01-01 10:00'')
              (replicate 11 (lit ''Q'', lit ''A'') @ [(lit ''Q12'', lit ''A12'')]) Map.empty
            = [lit ''out.pdf'' \<mapsto> PdfFile pages]
          \<and> length pages = 2
          \<and> sublist (card_ops 742 12 (lit ''Q12'', lit ''A12'')) (pages ! 1)"
  using pdf_page_breaks [where pre = "replicate 11 (lit ''Q'', lit ''A'')"
      and fc = "(lit ''Q12'', lit ''A12'')" and post = "[]" and path = "lit ''out.pdf''"
      and now = "lit ''2024-01-01 10:00''" and fs = Map.empty and i = 1 and c = new_canvas
      and y = 50]
  by (auto simp add: page_at_def y_at_def numeral_2_eq_2)

end
